theory Spec2Isabelle
  imports Main "HOL-Library.Word"
begin

section \<open>Data model (src/types.ts)\<close>

text \<open>
  A \<open>Uint8Array\<close> is a list of bytes. JavaScript numbers that only ever hold integers
  here (page indices, rotations) are \<open>int\<close>; counts are \<open>nat\<close>. The optional
  \<open>thumbnailUrl\<close> and the nullable \<open>aiInsights\<close> are options. The fields \<open>id\<close> and
  \<open>size\<close> carry a suffix, since HOL has constants of these names.
\<close>

type_synonym byte = "8 word"

record PDFPageReference =
  id_ref :: string
  fileId :: string
  pageIndex :: int
  rotation :: int
  thumbnailUrl :: "string option"

record PDFFile =
  id_file :: string
  name :: string
  size_file :: nat
  data :: "byte list"
  pageCount :: nat

record WorkspaceState =
  files :: "PDFFile list"
  pages :: "PDFPageReference list"
  isProcessing :: bool
  aiInsights :: "string option"

section \<open>Errors\<close>

text \<open>
  Every rejected promise of the source is a value. \<open>LoadError\<close> is the rejection of
  \<open>PDFDocument.load\<close>, \<open>CopyError\<close> the one of \<open>copyPages\<close> (no source document, or no page
  at the index), \<open>RenderError\<close> the one of \<open>generateThumbnail\<close>, \<open>TextError\<close> the one of the
  text extraction and \<open>ServiceError\<close> the one of the analysis client. \<open>AssemblyError\<close> and
  \<open>RangeError\<close> are the error kinds of the specification; no function of the source
  builds them.
\<close>

datatype error =
  LoadError
  | CopyError
  | RenderError
  | TextError
  | ServiceError
  | AssemblyError error
  | RangeError

fun is_AssemblyError :: "error \<Rightarrow> bool" where
  "is_AssemblyError (AssemblyError e) = True"
| "is_AssemblyError e = False"

section \<open>The collaborators\<close>

text \<open>
  A parsed PDF document is the list of its pages; a page has a content and the rotation
  entry of its page dictionary.
\<close>

record pdf_page =
  content :: "byte list"
  rotateEntry :: int

type_synonym pdf_doc = "pdf_page list"

text \<open>
  The libraries behind \<open>window.PDFLib\<close>, \<open>pdfjs-dist\<close> and \<open>@google/genai\<close>, and the draws
  of \<open>Math.random\<close>, are not part of the repository. What they compute is a parameter
  of the model, and every theorem holds for every platform:
  \<^item> \<open>load\<close>: \<open>PDFDocument.load(bytes)\<close>, \<open>None\<close> when the promise is rejected;
  \<^item> \<open>renderer\<close>: the data URL of \<open>generateThumbnail(bytes, pageIndex)\<close>, \<open>None\<close> when
    the rendering is rejected;
  \<^item> \<open>getDocument\<close>: the text items (\<open>item.str\<close>) of every page as pdf.js returns them,
    \<open>None\<close> when the loading task or the reading of a page is rejected;
  \<^item> \<open>random36 k\<close> and \<open>randomDec k\<close>: the \<open>k\<close>-th draw of \<open>Math.random()\<close>, rendered by
    \<open>.toString(36).substr(2, 9)\<close> and by the template literal;
  \<^item> \<open>newGoogleGenAI\<close>: the client constructor, which either throws or gives
    \<open>generateContent\<close>, a function from the prompt to the \<open>text\<close> property of the response
    (\<open>None\<close> for \<open>undefined\<close>) or to an error.
\<close>

record platform =
  load :: "byte list \<Rightarrow> pdf_doc option"
  renderer :: "byte list \<Rightarrow> nat \<Rightarrow> string option"
  getDocument :: "byte list \<Rightarrow> string list list option"
  random36 :: "nat \<Rightarrow> string"
  randomDec :: "nat \<Rightarrow> string"
  newGoogleGenAI :: "error + (string \<Rightarrow> error + string option)"

text \<open>
  Modelled from the spec: the codec contract (section 6), whose code is the library's.
  \<open>copyPages(srcDoc, [i])\<close> gives a copy of page \<open>i\<close> of the source, rotation entry
  included, and rejects when the source handle is not a document (the lookup
  \<open>docCache[ref.fileId]\<close> found no document) or has no page \<open>i\<close>; \<open>setRotation\<close>
  overwrites the rotation entry (the contract is for the quarter turns of the data
  model, and the theorems about rotated pages take the rotations among them);
  \<open>addPage\<close> appends to the document.
\<close>

definition copyPages :: "pdf_doc option \<Rightarrow> int \<Rightarrow> error + pdf_page" where
  "copyPages srcDoc i =
     (case srcDoc of
        None \<Rightarrow> Inl CopyError
      | Some d \<Rightarrow> if 0 \<le> i \<and> i < int (length d) then Inr (d ! nat i) else Inl CopyError)"

definition setRotation :: "int \<Rightarrow> pdf_page \<Rightarrow> pdf_page" where
  "setRotation r p = p\<lparr>rotateEntry := r\<rparr>"

definition addPage :: "pdf_doc \<Rightarrow> pdf_page \<Rightarrow> pdf_doc" where
  "addPage d p = d @ [p]"

section \<open>Text helpers\<close>

text \<open>The decimal rendering of a number in a template literal.\<close>

definition digit :: "nat \<Rightarrow> char" where
  "digit n = ''0123456789'' ! (n mod 10)"

function show_nat :: "nat \<Rightarrow> string" where
  "show_nat n = (if n < 10 then [digit n] else show_nat (n div 10) @ [digit n])"
  by pat_completeness auto
termination
  by (relation "measure (\<lambda>n. n)") auto

declare show_nat.simps [simp del]

text \<open>\<open>Array.prototype.join\<close> with a separator.\<close>

fun join :: "string \<Rightarrow> string list \<Rightarrow> string" where
  "join sep [] = []"
| "join sep [x] = x"
| "join sep (x # y # ys) = x @ sep @ join sep (y # ys)"

definition newline :: string where
  "newline = [CHR 0x0A]"

section \<open>Downloads\<close>

text \<open>
  Modelled from the spec: \<open>save\<close> of the codec contract (section 6), whose code is the
  library's. It serialises a document; the library first gives a document without
  pages one blank page. The model keeps, for the bytes, the document they hold.
\<close>

definition blank_page :: pdf_page where
  "blank_page = \<lparr>content = [], rotateEntry = 0\<rparr>"

definition save :: "pdf_doc \<Rightarrow> pdf_doc" where
  "save d = (if d = [] then [blank_page] else d)"

text \<open>
  \<open>downloadBlob(bytes, fileName, mimeType)\<close> hands a file to the browser; \<open>saved\<close> is the
  document its bytes hold.
\<close>

record download =
  saved :: pdf_doc
  fileName :: string
  mimeType :: string

definition downloadBlob :: "pdf_doc \<Rightarrow> string \<Rightarrow> string \<Rightarrow> download" where
  "downloadBlob d fname mime = \<lparr>saved = d, fileName = fname, mimeType = mime\<rparr>"

section \<open>Assembly (src/services/pdfProcessor.ts)\<close>

text \<open>
  The loop \<open>for (const file of files) docCache[file.id] = await PDFDocument.load(file.data)\<close>:
  a later file with the same id overwrites the entry, and the first rejected load ends
  the whole call. The cache is a map from ids to documents; an id that finds no
  document there finds none in the model (in JavaScript it may find a member of
  \<open>Object.prototype\<close>, which is no document either).
\<close>

type_synonym docCache = "string \<rightharpoonup> pdf_doc"

fun load_files :: "platform \<Rightarrow> PDFFile list \<Rightarrow> docCache \<Rightarrow> error + docCache" where
  "load_files env [] cache = Inr cache"
| "load_files env (file # rest) cache =
     (case load env (data file) of
        None \<Rightarrow> Inl LoadError
      | Some d \<Rightarrow> load_files env rest (cache(id_file file \<mapsto> d)))"

text \<open>The loop over \<open>pageRefs\<close> of \<open>mergeAndDownload\<close>, with the document built so far.\<close>

fun merge_loop :: "docCache \<Rightarrow> PDFPageReference list \<Rightarrow> pdf_doc \<Rightarrow> error + pdf_doc" where
  "merge_loop cache [] mergedPdf = Inr mergedPdf"
| "merge_loop cache (ref # rest) mergedPdf =
     (case copyPages (cache (fileId ref)) (pageIndex ref) of
        Inl e \<Rightarrow> Inl e
      | Inr copiedPage \<Rightarrow>
          merge_loop cache rest
            (addPage mergedPdf
               (if rotation ref \<noteq> 0 then setRotation (rotation ref) copiedPage
                else copiedPage)))"

definition mergeAndDownload ::
  "platform \<Rightarrow> PDFFile list \<Rightarrow> PDFPageReference list \<Rightarrow> string \<Rightarrow> error + download" where
  "mergeAndDownload env fs pageRefs filename =
     (case load_files env fs Map.empty of
        Inl e \<Rightarrow> Inl e
      | Inr cache \<Rightarrow>
          (case merge_loop cache pageRefs [] of
             Inl e \<Rightarrow> Inl e
           | Inr mergedPdf \<Rightarrow>
               Inr (downloadBlob (save mergedPdf) filename ''application/pdf'')))"

text \<open>
  The loop of \<open>splitAllToIndividual\<close>, with the counter \<open>i\<close> and the downloads made so
  far: each turn downloads its file before the next page is copied, so a rejection
  leaves the earlier downloads done.
\<close>

fun split_loop ::
  "docCache \<Rightarrow> nat \<Rightarrow> PDFPageReference list \<Rightarrow> download list \<Rightarrow> download list \<times> error option" where
  "split_loop cache i [] sofar = (sofar, None)"
| "split_loop cache i (ref # rest) sofar =
     (case copyPages (cache (fileId ref)) (pageIndex ref) of
        Inl e \<Rightarrow> (sofar, Some e)
      | Inr copiedPage \<Rightarrow>
          split_loop cache (i + 1) rest
            (sofar @ [downloadBlob (save (addPage [] copiedPage))
                       (''page_'' @ show_nat (i + 1) @ ''.pdf'') ''application/pdf'']))"

definition splitAllToIndividual ::
  "platform \<Rightarrow> PDFFile list \<Rightarrow> PDFPageReference list \<Rightarrow> download list \<times> error option" where
  "splitAllToIndividual env fs pageRefs =
     (case load_files env fs Map.empty of
        Inl e \<Rightarrow> ([], Some e)
      | Inr cache \<Rightarrow> split_loop cache 0 pageRefs [])"

text \<open>
  A reference resolves in a cache when its source document is there and has a page at
  its index.
\<close>

definition resolves :: "docCache \<Rightarrow> PDFPageReference \<Rightarrow> bool" where
  "resolves cache ref =
     (case cache (fileId ref) of
        None \<Rightarrow> False
      | Some d \<Rightarrow> 0 \<le> pageIndex ref \<and> pageIndex ref < int (length d))"

text \<open>The source page a resolving reference points at.\<close>

definition source_page :: "docCache \<Rightarrow> PDFPageReference \<Rightarrow> pdf_page" where
  "source_page cache ref = the (cache (fileId ref)) ! nat (pageIndex ref)"

section \<open>Text extraction and analysis\<close>

text \<open>
  \<open>extractText\<close>: the loop \<open>for (let i = 1; i <= maxPages; i++)\<close> over the pages of the
  document, \<open>getPage(i)\<close> being page \<open>i - 1\<close> of the list; \<open>page_block\<close> is the template
  literal added to \<open>fullText\<close>, on the page number and the text items of the page.
\<close>

definition page_block :: "nat \<Rightarrow> string list \<Rightarrow> string" where
  "page_block i items =
     ''--- Page '' @ show_nat i @ '' ---'' @ newline @ join '' '' items @ newline"

function text_loop :: "string list list \<Rightarrow> nat \<Rightarrow> nat \<Rightarrow> string \<Rightarrow> string" where
  "text_loop pdf maxPages i fullText =
     (if i \<le> maxPages then
        text_loop pdf maxPages (i + 1) (fullText @ page_block i (pdf ! (i - 1)))
      else fullText)"
  by pat_completeness auto
termination
  by (relation "measure (\<lambda>(pdf, maxPages, i, fullText). Suc maxPages - i)") auto

declare text_loop.simps [simp del]

definition extractText :: "platform \<Rightarrow> byte list \<Rightarrow> error + string" where
  "extractText env fileData =
     (case getDocument env fileData of
        None \<Rightarrow> Inl TextError
      | Some pdf \<Rightarrow> Inr (text_loop pdf (min (length pdf) 5) 1 []))"

text \<open>src/services/geminiService.ts: the prompt, and the call inside \<open>try\<close>/\<open>catch\<close>.\<close>

definition prompt :: "string \<Rightarrow> string" where
  "prompt txt =
     newline
     @ ''    Analyze the following extracted text from a PDF document. '' @ newline
     @ ''    Provide:'' @ newline
     @ ''    1. A brief 2-sentence summary of the content.'' @ newline
     @ ''    2. A suggested intelligent filename (without extension).'' @ newline
     @ ''    3. Key topics identified.'' @ newline
     @ ''    4. If it looks like a multi-document bundle (e.g. several invoices or reports), suggest where to split it.'' @ newline
     @ newline
     @ ''    Text content:'' @ newline
     @ ''    '' @ txt @ newline
     @ ''  ''"

definition analyzePdfContent :: "platform \<Rightarrow> string \<Rightarrow> error + string" where
  "analyzePdfContent env txt =
     (case newGoogleGenAI env of
        Inl e \<Rightarrow> Inl e
      | Inr generateContent \<Rightarrow>
          (case generateContent (prompt txt) of
             Inl e \<Rightarrow> Inr ''Failed to get AI insights. Please check your connection.''
           | Inr None \<Rightarrow> Inr ''No insights available.''
           | Inr (Some t) \<Rightarrow> Inr (if t = [] then ''No insights available.'' else t)))"

section \<open>The handlers of the workspace (the \<open>App\<close> component)\<close>

definition initialState :: WorkspaceState where
  "initialState = \<lparr>files = [], pages = [], isProcessing = False, aiInsights = None\<rparr>"

text \<open>A \<open>File\<close> of the browser's file input.\<close>

record browser_file =
  file_name :: string
  file_size :: nat
  arrayBuffer :: "byte list"

definition generateThumbnail :: "platform \<Rightarrow> byte list \<Rightarrow> nat \<Rightarrow> error + string" where
  "generateThumbnail env fileData i =
     (case renderer env fileData i of None \<Rightarrow> Inl RenderError | Some url \<Rightarrow> Inr url)"

text \<open>
  The inner loop of \<open>handleFileUpload\<close>, \<open>for (let i = 0; i < pageCount; i++)\<close>; \<open>k\<close> counts
  the draws of \<open>Math.random\<close> made so far.
\<close>

function page_loop ::
  "platform \<Rightarrow> byte list \<Rightarrow> string \<Rightarrow> nat \<Rightarrow> nat \<Rightarrow> nat \<Rightarrow> PDFPageReference list
     \<Rightarrow> error + (PDFPageReference list \<times> nat)" where
  "page_loop env fileData fid pageCnt i k newPages =
     (if i < pageCnt then
        (case generateThumbnail env fileData i of
           Inl e \<Rightarrow> Inl e
         | Inr thumb \<Rightarrow>
             page_loop env fileData fid pageCnt (i + 1) (k + 1)
               (newPages @
                  [\<lparr>id_ref = fid @ ''-'' @ show_nat i @ ''-'' @ randomDec env k,
                    fileId = fid, pageIndex = int i, rotation = 0,
                    thumbnailUrl = Some thumb\<rparr>]))
      else Inr (newPages, k))"
  by pat_completeness auto
termination
  by (relation "measure (\<lambda>(env, fileData, fid, pageCnt, i, k, newPages). pageCnt - i)") auto

declare page_loop.simps [simp del]

text \<open>The outer loop, \<open>for (const file of Array.from(files))\<close>.\<close>

fun file_loop ::
  "platform \<Rightarrow> browser_file list \<Rightarrow> nat \<Rightarrow> PDFFile list \<Rightarrow> PDFPageReference list
     \<Rightarrow> error + (PDFFile list \<times> PDFPageReference list)" where
  "file_loop env [] k newFiles newPages = Inr (newFiles, newPages)"
| "file_loop env (file # rest) k newFiles newPages =
     (let fileData = arrayBuffer file; fid = random36 env k in
        (case load env fileData of
           None \<Rightarrow> Inl LoadError
         | Some pdfDoc \<Rightarrow>
             (case page_loop env fileData fid (length pdfDoc) 0 (k + 1) newPages of
                Inl e \<Rightarrow> Inl e
              | Inr (newPages', k') \<Rightarrow>
                  file_loop env rest k'
                    (newFiles @
                       [\<lparr>id_file = fid, name = file_name file, size_file = file_size file,
                         data = fileData, pageCount = length pdfDoc\<rparr>])
                    newPages')))"

text \<open>
  \<open>handleFileUpload\<close>: \<open>None\<close> is \<open>event.target.files\<close> being null. The handler has no
  \<open>try\<close>: a rejection leaves the state as the first \<open>setState\<close> made it. The result is the
  state the handler leaves and the rejection of its promise, if any.
\<close>

definition handleFileUpload ::
  "platform \<Rightarrow> nat \<Rightarrow> browser_file list option \<Rightarrow> WorkspaceState
     \<Rightarrow> WorkspaceState \<times> error option" where
  "handleFileUpload env k fileList s =
     (case fileList of
        None \<Rightarrow> (s, None)
      | Some fs \<Rightarrow>
          (let s1 = s\<lparr>isProcessing := True\<rparr> in
             (case file_loop env fs k [] [] of
                Inl e \<Rightarrow> (s1, Some e)
              | Inr (newFiles, newPages) \<Rightarrow>
                  (s1\<lparr>files := files s1 @ newFiles, pages := pages s1 @ newPages,
                      isProcessing := False\<rparr>, None))))"

definition removePage :: "string \<Rightarrow> WorkspaceState \<Rightarrow> WorkspaceState" where
  "removePage i s = s\<lparr>pages := filter (\<lambda>p. id_ref p \<noteq> i) (pages s)\<rparr>"

text \<open>
  The remainder operator \<open>%\<close> of JavaScript on integers takes the sign of the dividend.
\<close>

definition js_rem :: "int \<Rightarrow> int \<Rightarrow> int" where
  "js_rem a b = sgn a * (\<bar>a\<bar> mod \<bar>b\<bar>)"

definition rotatePage :: "string \<Rightarrow> WorkspaceState \<Rightarrow> WorkspaceState" where
  "rotatePage i s =
     s\<lparr>pages := map (\<lambda>p. if id_ref p = i then p\<lparr>rotation := js_rem (rotation p + 90) 360\<rparr> else p)
                    (pages s)\<rparr>"

text \<open>
  \<open>Array.prototype.splice(start, deleteCount, ...items)\<close>: the start is counted from the
  end when negative and clamped to the array, the count is clamped to what is left. The
  result is the removed elements and the array after the call.
\<close>

definition splice_array :: "int \<Rightarrow> int \<Rightarrow> 'a list \<Rightarrow> 'a list \<Rightarrow> 'a list \<times> 'a list" where
  "splice_array start deleteCount items xs =
     (let len = int (length xs);
          actualStart = (if start < 0 then max (len + start) 0 else min start len);
          actualDeleteCount = min (max deleteCount 0) (len - actualStart);
          a = nat actualStart;
          c = nat actualDeleteCount
      in (take c (drop a xs), take a xs @ items @ drop (a + c) xs))"

text \<open>
  \<open>handleDragStart\<close> sets the dragged index; no handler ever sets it back to null.
\<close>

definition handleDragStart :: "int \<Rightarrow> int option" where
  "handleDragStart idx = Some idx"

text \<open>
  \<open>handleDragOver\<close>, on the dragged index (\<open>None\<close> for null) and the pages; it gives the
  new dragged index and the new array. A slot of a JavaScript array may hold
  \<open>undefined\<close>, which destructuring an empty \<open>splice\<close> result yields: the array after
  the call is a list of options, \<open>None\<close> for \<open>undefined\<close>.
\<close>

definition handleDragOver ::
  "int option \<Rightarrow> int \<Rightarrow> PDFPageReference list \<Rightarrow> int option \<times> PDFPageReference option list" where
  "handleDragOver draggedIdx idx ps =
     (case draggedIdx of
        None \<Rightarrow> (draggedIdx, map Some ps)
      | Some dragged \<Rightarrow>
          if dragged = idx then (draggedIdx, map Some ps)
          else
            (let updatedPages = map Some ps;
                 (removed, updated1) = splice_array dragged 1 [] updatedPages;
                 movedItem = (case removed of [] \<Rightarrow> None | x # _ \<Rightarrow> x);
                 (_, updated2) = splice_array idx 0 [movedItem] updated1
             in (Some idx, updated2)))"

text \<open>
  \<open>handleMerge\<close> and \<open>handleSplit\<close>: nothing happens on an empty workspace; otherwise the
  flag is set, the assembly runs, and \<open>finally\<close> clears the flag on both paths. The
  second component is what the assembly did, \<open>None\<close> when it did not run.
\<close>

definition handleMerge ::
  "platform \<Rightarrow> WorkspaceState \<Rightarrow> WorkspaceState \<times> (error + download) option" where
  "handleMerge env s =
     (if pages s = [] then (s, None)
      else
        (let s1 = s\<lparr>isProcessing := True\<rparr>;
             r = mergeAndDownload env (files s) (pages s) ''exported_document.pdf''
         in (s1\<lparr>isProcessing := False\<rparr>, Some r)))"

definition handleSplit ::
  "platform \<Rightarrow> WorkspaceState \<Rightarrow> WorkspaceState \<times> (download list \<times> error option) option" where
  "handleSplit env s =
     (if pages s = [] then (s, None)
      else
        (let s1 = s\<lparr>isProcessing := True\<rparr>;
             r = splitAllToIndividual env (files s) (pages s)
         in (s1\<lparr>isProcessing := False\<rparr>, Some r)))"

text \<open>
  \<open>handleAiAnalyze\<close>: the text comes from \<open>state.files[0].data\<close>; \<open>catch\<close> turns every
  rejection into a message and \<open>finally\<close> clears the flag.
\<close>

definition handleAiAnalyze :: "platform \<Rightarrow> WorkspaceState \<Rightarrow> WorkspaceState" where
  "handleAiAnalyze env s =
     (if files s = [] then s
      else
        (let s1 = s\<lparr>isProcessing := True, aiInsights := Some ''Thinking...''\<rparr>;
             r = (case extractText env (data (files s ! 0)) of
                    Inl e \<Rightarrow> Inl e
                  | Inr txt \<Rightarrow> analyzePdfContent env txt);
             s2 = (case r of
                     Inr insights \<Rightarrow> s1\<lparr>aiInsights := Some insights\<rparr>
                   | Inl e \<Rightarrow> s1\<lparr>aiInsights := Some ''Error generating insights.''\<rparr>)
         in s2\<lparr>isProcessing := False\<rparr>))"

definition clearWorkspace :: "WorkspaceState \<Rightarrow> WorkspaceState" where
  "clearWorkspace s = \<lparr>files = [], pages = [], isProcessing = False, aiInsights = None\<rparr>"

section \<open>Sequences of uploads\<close>

text \<open>
  What a slot of the workspace shows of its reference: the source document, the page
  index and the rotation. The slots a source document gets when it is uploaded: its
  pages in ascending order, each at rotation 0.
\<close>

definition slot :: "PDFPageReference \<Rightarrow> string \<times> int \<times> int" where
  "slot p = (fileId p, pageIndex p, rotation p)"

definition source_slots :: "PDFFile \<Rightarrow> (string \<times> int \<times> int) list" where
  "source_slots f = map (\<lambda>i. (id_file f, int i, 0)) [0..<pageCount f]"

text \<open>
  A sequence of upload events, each with the number of draws of \<open>Math.random\<close> made
  before it; the sequence ends at the first rejected upload.
\<close>

fun upload_calls ::
  "platform \<Rightarrow> (nat \<times> browser_file list) list \<Rightarrow> WorkspaceState \<Rightarrow> error + WorkspaceState" where
  "upload_calls env [] s = Inr s"
| "upload_calls env ((k, fs) # rest) s =
     (case handleFileUpload env k (Some fs) s of
        (s', None) \<Rightarrow> upload_calls env rest s'
      | (s', Some e) \<Rightarrow> Inl e)"

section \<open>The operation \<open>reorder\<close> of the specification\<close>

text \<open>
  This definition follows the words of the specification, not the source:
  \<open>reorder(fromIndex, toIndex)\<close> removes the element at \<open>fromIndex\<close> and reinserts it at
  \<open>toIndex\<close>, and fails with \<open>RangeError\<close> if either index is out of \<open>[0, length)\<close>. It is
  what \<open>handleDragOver\<close> is compared with.
\<close>

definition reorder_spec :: "int \<Rightarrow> int \<Rightarrow> 'a list \<Rightarrow> error + 'a list" where
  "reorder_spec fromIndex toIndex xs =
     (if 0 \<le> fromIndex \<and> fromIndex < int (length xs) \<and> 0 \<le> toIndex \<and> toIndex < int (length xs)
      then
        (let removed = take (nat fromIndex) xs @ drop (nat fromIndex + 1) xs
         in Inr (take (nat toIndex) removed @ [xs ! nat fromIndex] @ drop (nat toIndex) removed))
      else Inl RangeError)"

section \<open>The states of the workspace\<close>

text \<open>
  The states the component can be in: the initial one, and what a handler makes of a
  state, each handler taken as one step. The page cards are rendered from
  \<open>state.pages\<close> with their index, and the drag events carry these indices. The drag
  step here has both indices inside the sequence, and its array holds a page in every
  slot. A drag-over with a dragged index left from an earlier drag and now past the end
  of the sequence is not such a step: it stores \<open>undefined\<close> in the array (see the
  section on reordering), and the next render of the page cards throws.
\<close>

inductive reachable :: "platform \<Rightarrow> WorkspaceState \<Rightarrow> bool" for env :: platform where
  initial: "reachable env initialState"
| upload: "reachable env s \<Longrightarrow> reachable env (fst (handleFileUpload env k fileList s))"
| remove: "reachable env s \<Longrightarrow> reachable env (removePage i s)"
| rotate: "reachable env s \<Longrightarrow> reachable env (rotatePage i s)"
| drag: "reachable env s \<Longrightarrow> 0 \<le> dragged \<Longrightarrow> dragged < int (length (pages s)) \<Longrightarrow>
         0 \<le> idx \<Longrightarrow> idx < int (length (pages s)) \<Longrightarrow>
         handleDragOver (Some dragged) idx (pages s) = (d, map Some ps) \<Longrightarrow>
         reachable env (s\<lparr>pages := ps\<rparr>)"
| merge: "reachable env s \<Longrightarrow> reachable env (fst (handleMerge env s))"
| split: "reachable env s \<Longrightarrow> reachable env (fst (handleSplit env s))"
| analyze: "reachable env s \<Longrightarrow> reachable env (handleAiAnalyze env s)"
| clear: "reachable env s \<Longrightarrow> reachable env (clearWorkspace s)"

section \<open>A sample platform and workspace\<close>

text \<open>
  A platform to evaluate the model on: a byte buffer parses when it is not empty, one
  page per byte; every page renders and has two text items, the second one the byte in
  decimal; the draws are numbered; the analysis service answers with its prompt.
  The files \<open>A\<close> (three pages) and \<open>B\<close> (two pages) and the sequence
  \<open>[B:1 at 90, A:0, A:1, A:2, B:0]\<close> are the example of the specification.
\<close>

definition sample_load :: "byte list \<Rightarrow> pdf_doc option" where
  "sample_load bs =
     (if bs = [] then None else Some (map (\<lambda>b. \<lparr>content = [b], rotateEntry = 0\<rparr>) bs))"

definition sample_platform :: platform where
  "sample_platform =
     \<lparr>load = sample_load,
      renderer = (\<lambda>bs i. Some ''data:image/png''),
      getDocument =
        (\<lambda>bs. if bs = [] then None else Some (map (\<lambda>b. [''byte'', show_nat (unat b)]) bs)),
      random36 = (\<lambda>k. ''f'' @ show_nat k),
      randomDec = (\<lambda>k. ''0.'' @ show_nat k),
      newGoogleGenAI = Inr (\<lambda>p. Inr (Some (''summary of: '' @ p)))\<rparr>"

definition fileA :: PDFFile where
  "fileA = \<lparr>id_file = ''A'', name = ''a.pdf'', size_file = 3, data = [1, 2, 3], pageCount = 3\<rparr>"

definition fileB :: PDFFile where
  "fileB = \<lparr>id_file = ''B'', name = ''b.pdf'', size_file = 2, data = [4, 5], pageCount = 2\<rparr>"

definition sample_cache :: docCache where
  "sample_cache =
     [''A'' \<mapsto> [\<lparr>content = [1], rotateEntry = 0\<rparr>, \<lparr>content = [2], rotateEntry = 0\<rparr>,
                 \<lparr>content = [3], rotateEntry = 0\<rparr>],
      ''B'' \<mapsto> [\<lparr>content = [4], rotateEntry = 0\<rparr>, \<lparr>content = [5], rotateEntry = 0\<rparr>]]"

definition pageRef :: "string \<Rightarrow> string \<Rightarrow> int \<Rightarrow> int \<Rightarrow> PDFPageReference" where
  "pageRef i fid idx r =
     \<lparr>id_ref = i, fileId = fid, pageIndex = idx, rotation = r, thumbnailUrl = None\<rparr>"

definition sample_pages :: "PDFPageReference list" where
  "sample_pages =
     [pageRef ''b1'' ''B'' 1 90, pageRef ''a0'' ''A'' 0 0, pageRef ''a1'' ''A'' 1 0,
      pageRef ''a2'' ''A'' 2 0, pageRef ''b0'' ''B'' 0 0]"

definition sample_state :: WorkspaceState where
  "sample_state =
     \<lparr>files = [fileA, fileB], pages = sample_pages, isProcessing = False, aiInsights = None\<rparr>"

text \<open>
  Uploads for the sample: the two files of the example, and a file of no bytes, which
  the sample platform does not parse.
\<close>

definition uploadA :: browser_file where
  "uploadA = \<lparr>file_name = ''a.pdf'', file_size = 3, arrayBuffer = [1, 2, 3]\<rparr>"

definition uploadB :: browser_file where
  "uploadB = \<lparr>file_name = ''b.pdf'', file_size = 2, arrayBuffer = [4, 5]\<rparr>"

definition emptyFile :: browser_file where
  "emptyFile = \<lparr>file_name = ''empty.pdf'', file_size = 0, arrayBuffer = []\<rparr>"

definition uploaded_page :: "string \<Rightarrow> string \<Rightarrow> int \<Rightarrow> PDFPageReference" where
  "uploaded_page i fid idx =
     \<lparr>id_ref = i, fileId = fid, pageIndex = idx, rotation = 0,
      thumbnailUrl = Some ''data:image/png''\<rparr>"

definition sample_uploaded :: WorkspaceState where
  "sample_uploaded =
     \<lparr>files =
        [\<lparr>id_file = ''f0'', name = ''a.pdf'', size_file = 3, data = [1, 2, 3], pageCount = 3\<rparr>,
         \<lparr>id_file = ''f4'', name = ''b.pdf'', size_file = 2, data = [4, 5], pageCount = 2\<rparr>],
      pages =
        [uploaded_page ''f0-0-0.1'' ''f0'' 0, uploaded_page ''f0-1-0.2'' ''f0'' 1,
         uploaded_page ''f0-2-0.3'' ''f0'' 2, uploaded_page ''f4-0-0.5'' ''f4'' 0,
         uploaded_page ''f4-1-0.6'' ''f4'' 1],
      isProcessing = False, aiInsights = None\<rparr>"

text \<open>
  The uploaded sample after the removal of all its pages but the last one.
\<close>

definition sample_last_page :: WorkspaceState where
  "sample_last_page =
     removePage ''f4-0-0.5'' (removePage ''f0-2-0.3'' (removePage ''f0-1-0.2''
       (removePage ''f0-0-0.1'' sample_uploaded)))"

section \<open>Facts about the sample\<close>

lemma sample_load_files:
  "load_files sample_platform [fileA, fileB] Map.empty = Inr sample_cache"
  by (simp add: sample_platform_def sample_load_def fileA_def fileB_def sample_cache_def)

lemma sample_pages_resolve: "\<forall>ref\<in>set sample_pages. resolves sample_cache ref"
  by (simp add: sample_pages_def pageRef_def resolves_def sample_cache_def)

section \<open>Merge\<close>

text \<open>The documents of the registry are all loaded exactly when every file parses.\<close>

lemma load_files_succeeds_iff:
  "(\<exists>cache. load_files env fs c0 = Inr cache) \<longleftrightarrow> (\<forall>f\<in>set fs. load env (data f) \<noteq> None)"
  by (induction fs arbitrary: c0) (auto split: option.splits)

text \<open>
  When every reference resolves, no copy is rejected, and the loop appends one page per
  reference: the source page, with the rotation of the reference written over its
  rotation entry when that rotation is not zero.
\<close>

lemma merge_loop_resolved:
  "\<forall>ref\<in>set refs. resolves cache ref \<Longrightarrow>
   merge_loop cache refs out =
     Inr (out @ map (\<lambda>ref. if rotation ref \<noteq> 0
                             then setRotation (rotation ref) (source_page cache ref)
                             else source_page cache ref) refs)"
proof (induction refs arbitrary: out)
  case Nil
  then show ?case by simp
next
  case (Cons r rs)
  from Cons.prems have r: "resolves cache r" and rs: "\<forall>ref\<in>set rs. resolves cache ref"
    by simp_all
  from r have c: "copyPages (cache (fileId r)) (pageIndex r) = Inr (source_page cache r)"
    by (auto simp: resolves_def copyPages_def source_page_def split: option.splits)
  show ?case by (simp add: c Cons.IH[OF rs] addPage_def)
qed

lemma save_nonempty: "d \<noteq> [] \<Longrightarrow> save d = d"
  by (simp add: save_def)

text \<open>\<open>handleMerge\<close> does nothing on an empty workspace.\<close>

lemma handleMerge_empty: "pages s = [] \<Longrightarrow> handleMerge env s = (s, None)"
  by (simp add: handleMerge_def)

text \<open>
  C1, as the claim states it, fails at the empty sequence: \<open>mergeAndDownload\<close> saves a
  document without pages, to which \<open>save\<close> gives a blank page, and downloads one page
  where the sequence has no reference.
\<close>

theorem merge_empty_sequence_counterexample:
  "mergeAndDownload sample_platform [fileA, fileB] [] ''merged_document.pdf''
     = Inr \<lparr>saved = [blank_page], fileName = ''merged_document.pdf'',
            mimeType = ''application/pdf''\<rparr>
   \<and> length [blank_page] \<noteq> length ([] :: PDFPageReference list)"
  by (simp add: mergeAndDownload_def sample_platform_def sample_load_def fileA_def fileB_def
      save_def downloadBlob_def)

text \<open>
  C1, amended. For every page-reference sequence that is not empty (\<open>handleMerge\<close>
  returns at once on an empty one) and whose rotations are among 0, 90, 180, 270, and
  every registry whose files load and resolve all the references, \<open>mergeAndDownload\<close>
  downloads one document under the given name; it has as many pages as the sequence
  has references; its page \<open>n\<close> (counted from 1) has the content of the source page
  that slot \<open>n - 1\<close> references; the rotation of the slot is the rotation of that page
  whenever it is not zero, and a slot with rotation zero gives the source page
  unchanged.
\<close>

theorem merge_pages_in_sequence_order:
  assumes cache: "load_files env fs Map.empty = Inr cache"
    and res: "\<forall>ref\<in>set pageRefs. resolves cache ref"
    and rots: "\<forall>ref\<in>set pageRefs. rotation ref \<in> {0, 90, 180, 270}"
    and nonempty: "pageRefs \<noteq> []"
  shows "\<exists>out. mergeAndDownload env fs pageRefs filename = Inr out
           \<and> fileName out = filename
           \<and> length (saved out) = length pageRefs
           \<and> (\<forall>n. 1 \<le> n \<and> n \<le> length pageRefs \<longrightarrow>
                 content (saved out ! (n - 1)) = content (source_page cache (pageRefs ! (n - 1)))
               \<and> (rotation (pageRefs ! (n - 1)) \<noteq> 0 \<longrightarrow>
                    rotateEntry (saved out ! (n - 1)) = rotation (pageRefs ! (n - 1)))
               \<and> (rotation (pageRefs ! (n - 1)) = 0 \<longrightarrow>
                    saved out ! (n - 1) = source_page cache (pageRefs ! (n - 1))))"
proof -
  let ?pg = "\<lambda>ref. if rotation ref \<noteq> 0 then setRotation (rotation ref) (source_page cache ref)
                   else source_page cache ref"
  let ?out = "downloadBlob (map ?pg pageRefs) filename ''application/pdf''"
  have sv: "save (map ?pg pageRefs) = map ?pg pageRefs"
    using nonempty by (intro save_nonempty) simp
  have m: "mergeAndDownload env fs pageRefs filename = Inr ?out"
    by (simp add: mergeAndDownload_def cache merge_loop_resolved[OF res] sv)
  have s: "saved ?out = map ?pg pageRefs" and f: "fileName ?out = filename"
    by (simp_all add: downloadBlob_def)
  have n: "\<And>n. 1 \<le> n \<Longrightarrow> n \<le> length pageRefs \<Longrightarrow> saved ?out ! (n - 1) = ?pg (pageRefs ! (n - 1))"
    unfolding s by (rule nth_map) arith
  show ?thesis
  proof (intro exI[of _ ?out] conjI allI impI)
    show "mergeAndDownload env fs pageRefs filename = Inr ?out" by (rule m)
    show "fileName ?out = filename" by (rule f)
    show "length (saved ?out) = length pageRefs" by (simp add: s)
  next
    fix n assume "1 \<le> n \<and> n \<le> length pageRefs"
    then have e: "saved ?out ! (n - 1) = ?pg (pageRefs ! (n - 1))" using n by blast
    show "content (saved ?out ! (n - 1)) = content (source_page cache (pageRefs ! (n - 1)))"
      unfolding e by (simp add: setRotation_def)
    { assume "rotation (pageRefs ! (n - 1)) \<noteq> 0"
      then show "rotateEntry (saved ?out ! (n - 1)) = rotation (pageRefs ! (n - 1))"
        unfolding e by (simp add: setRotation_def) }
    { assume "rotation (pageRefs ! (n - 1)) = 0"
      then show "saved ?out ! (n - 1) = source_page cache (pageRefs ! (n - 1))"
        unfolding e by simp }
  qed
qed

theorem merge_pages_in_sequence_order_witness:
  "\<exists>out. mergeAndDownload sample_platform [fileA, fileB] sample_pages ''exported_document.pdf''
            = Inr out
      \<and> length (saved out) = 5
      \<and> saved out ! 0 = \<lparr>content = [5], rotateEntry = 90\<rparr>
      \<and> saved out ! 1 = \<lparr>content = [1], rotateEntry = 0\<rparr>"
proof -
  have rots: "\<forall>ref\<in>set sample_pages. rotation ref \<in> {0, 90, 180, 270}"
    by (simp add: sample_pages_def pageRef_def)
  have ne: "sample_pages \<noteq> []" by (simp add: sample_pages_def)
  from merge_pages_in_sequence_order[OF sample_load_files sample_pages_resolve rots ne,
      of "''exported_document.pdf''"]
  obtain out where
    m: "mergeAndDownload sample_platform [fileA, fileB] sample_pages ''exported_document.pdf''
          = Inr out"
    and l: "length (saved out) = length sample_pages"
    and n: "\<And>n. 1 \<le> n \<and> n \<le> length sample_pages \<Longrightarrow>
                 content (saved out ! (n - 1))
                   = content (source_page sample_cache (sample_pages ! (n - 1)))
               \<and> (rotation (sample_pages ! (n - 1)) \<noteq> 0 \<longrightarrow>
                    rotateEntry (saved out ! (n - 1)) = rotation (sample_pages ! (n - 1)))
               \<and> (rotation (sample_pages ! (n - 1)) = 0 \<longrightarrow>
                    saved out ! (n - 1) = source_page sample_cache (sample_pages ! (n - 1)))"
    by blast
  have l5: "length (saved out) = 5" using l by (simp add: sample_pages_def)
  have p1: "saved out ! 0 = \<lparr>content = [5], rotateEntry = 90\<rparr>"
    using n[of 1] by (simp add: sample_pages_def pageRef_def source_page_def sample_cache_def)
  have p2: "saved out ! 1 = \<lparr>content = [1], rotateEntry = 0\<rparr>"
    using n[of 2] by (simp add: sample_pages_def pageRef_def source_page_def sample_cache_def)
  show ?thesis using m l5 p1 p2 by blast
qed

section \<open>Split\<close>

text \<open>
  When every reference resolves, turn \<open>j\<close> of the loop downloads the source page of slot
  \<open>j\<close>, alone in a new document and as the source has it, under the name made from the
  counter.
\<close>

lemma split_loop_resolved:
  "\<forall>ref\<in>set refs. resolves cache ref \<Longrightarrow>
   split_loop cache i refs sofar =
     (sofar @ map (\<lambda>j. downloadBlob [source_page cache (refs ! j)]
                          (''page_'' @ show_nat (i + j + 1) @ ''.pdf'') ''application/pdf'')
                [0..<length refs],
      None)"
proof (induction refs arbitrary: i sofar)
  case Nil
  then show ?case by simp
next
  case (Cons r rs)
  from Cons.prems have r: "resolves cache r" and rs: "\<forall>ref\<in>set rs. resolves cache ref"
    by simp_all
  from r have c: "copyPages (cache (fileId r)) (pageIndex r) = Inr (source_page cache r)"
    by (auto simp: resolves_def copyPages_def source_page_def split: option.splits)
  have u: "[0..<length (r # rs)] = 0 # map Suc [0..<length rs]"
    by (simp add: upt_conv_Cons map_Suc_upt del: upt_Suc)
  show ?case
    unfolding u by (simp add: c Cons.IH[OF rs] addPage_def save_def comp_def)
qed

text \<open>
  C2. For every page-reference sequence that the registry resolves, \<open>splitAllToIndividual\<close>
  makes exactly one download per reference and no error; download \<open>j\<close> (counted from
  0) is a document of one page, the source page of slot \<open>j\<close> as the source has it (the
  rotation of the reference is not written on it), named \<open>page_\<close>, \<open>j + 1\<close> in decimal,
  \<open>.pdf\<close>.
\<close>

theorem split_one_file_per_reference:
  assumes cache: "load_files env fs Map.empty = Inr cache"
    and res: "\<forall>ref\<in>set pageRefs. resolves cache ref"
  shows "\<exists>outs. splitAllToIndividual env fs pageRefs = (outs, None)
           \<and> length outs = length pageRefs
           \<and> (\<forall>j < length pageRefs.
                 saved (outs ! j) = [source_page cache (pageRefs ! j)]
               \<and> fileName (outs ! j) = ''page_'' @ show_nat (j + 1) @ ''.pdf'')"
proof -
  let ?f = "\<lambda>j. downloadBlob [source_page cache (pageRefs ! j)]
                  (''page_'' @ show_nat (0 + j + 1) @ ''.pdf'') ''application/pdf''"
  let ?outs = "map ?f [0..<length pageRefs]"
  have s: "splitAllToIndividual env fs pageRefs = (?outs, None)"
    by (simp add: splitAllToIndividual_def cache split_loop_resolved[OF res])
  have n: "\<And>j. j < length pageRefs \<Longrightarrow> ?outs ! j = ?f j"
    by simp
  show ?thesis
  proof (intro exI[of _ ?outs] conjI allI impI)
    show "splitAllToIndividual env fs pageRefs = (?outs, None)" by (rule s)
    show "length ?outs = length pageRefs" by simp
  next
    fix j assume j: "j < length pageRefs"
    show "saved (?outs ! j) = [source_page cache (pageRefs ! j)]"
      unfolding n[OF j] by (simp add: downloadBlob_def)
    show "fileName (?outs ! j) = ''page_'' @ show_nat (j + 1) @ ''.pdf''"
      unfolding n[OF j] by (simp add: downloadBlob_def)
  qed
qed

theorem split_one_file_per_reference_witness:
  "\<exists>outs. splitAllToIndividual sample_platform [fileA, fileB] sample_pages = (outs, None)
      \<and> length outs = 5
      \<and> rotation (sample_pages ! 0) = 90
      \<and> saved (outs ! 0) = [\<lparr>content = [5], rotateEntry = 0\<rparr>]
      \<and> fileName (outs ! 0) = ''page_1.pdf''
      \<and> fileName (outs ! 1) = ''page_2.pdf''"
proof -
  from split_one_file_per_reference[OF sample_load_files sample_pages_resolve]
  obtain outs where
    s: "splitAllToIndividual sample_platform [fileA, fileB] sample_pages = (outs, None)"
    and l: "length outs = length sample_pages"
    and n: "\<And>j. j < length sample_pages \<Longrightarrow>
                 saved (outs ! j) = [source_page sample_cache (sample_pages ! j)]
               \<and> fileName (outs ! j) = ''page_'' @ show_nat (j + 1) @ ''.pdf''"
    by blast
  have l5: "length outs = 5" using l by (simp add: sample_pages_def)
  have r: "rotation (sample_pages ! 0) = 90" by (simp add: sample_pages_def pageRef_def)
  have p0: "saved (outs ! 0) = [\<lparr>content = [5], rotateEntry = 0\<rparr>]"
    using n[of 0] by (simp add: sample_pages_def pageRef_def source_page_def sample_cache_def)
  have f0: "fileName (outs ! 0) = ''page_1.pdf''"
    using n[of 0] by (simp add: sample_pages_def show_nat.simps digit_def)
  have f1: "fileName (outs ! 1) = ''page_2.pdf''"
    using n[of 1] by (simp add: sample_pages_def show_nat.simps digit_def)
  show ?thesis using s l5 r p0 f0 f1 by blast
qed

section \<open>Upload\<close>

text \<open>
  The inner loop, when it ends without a rejection, has appended one reference per
  remaining page index, in ascending order, each to the same file and at rotation 0.
\<close>

lemma page_loop_appends:
  "page_loop env d fid n i k acc = Inr (ps, k') \<Longrightarrow>
     \<exists>new. ps = acc @ new \<and> map slot new = map (\<lambda>j. (fid, int j, 0)) [i..<n]"
proof (induction env d fid n i k acc rule: page_loop.induct)
  case (1 env d fid n i k acc)
  show ?case
  proof (cases "i < n")
    case False
    with "1.prems" show ?thesis by (simp add: page_loop.simps)
  next
    case True
    from "1.prems" True obtain thumb where
      t: "generateThumbnail env d i = Inr thumb"
      by (cases "generateThumbnail env d i") (simp_all add: page_loop.simps)
    let ?p = "\<lparr>id_ref = fid @ ''-'' @ show_nat i @ ''-'' @ randomDec env k,
                fileId = fid, pageIndex = int i, rotation = 0, thumbnailUrl = Some thumb\<rparr>"
    from "1.prems" True t have
      r: "page_loop env d fid n (i + 1) (k + 1) (acc @ [?p]) = Inr (ps, k')"
      by (simp add: page_loop.simps)
    from "1.IH"[OF True t r] obtain new where
      n: "ps = (acc @ [?p]) @ new" "map slot new = map (\<lambda>j. (fid, int j, 0)) [i + 1..<n]"
      by blast
    have u: "[i..<n] = i # [i + 1..<n]" using True by (simp add: upt_conv_Cons)
    have "ps = acc @ (?p # new)" using n(1) by simp
    moreover have "map slot (?p # new) = map (\<lambda>j. (fid, int j, 0)) [i..<n]"
      unfolding u using n(2) by (simp add: slot_def)
    ultimately show ?thesis by blast
  qed
qed

text \<open>
  The outer loop, when it ends without a rejection, has appended one source document
  per uploaded file, in upload order, with the bytes and the name of the file and the
  page count of the parsed document, and the slots of these documents, in the same
  order.
\<close>

lemma file_loop_appends:
  "file_loop env fs k accF accP = Inr (nf, np) \<Longrightarrow>
     \<exists>added new. nf = accF @ added \<and> np = accP @ new
        \<and> map data added = map arrayBuffer fs
        \<and> map name added = map file_name fs
        \<and> map (\<lambda>f. Some (pageCount f)) added
            = map (\<lambda>b. map_option length (load env (arrayBuffer b))) fs
        \<and> map slot new = concat (map source_slots added)"
proof (induction fs arbitrary: k accF accP)
  case Nil
  then show ?case by simp
next
  case (Cons b bs)
  from Cons.prems obtain doc where l: "load env (arrayBuffer b) = Some doc"
    by (cases "load env (arrayBuffer b)") (simp_all add: Let_def)
  let ?f = "\<lparr>id_file = random36 env k, name = file_name b, size_file = file_size b,
              data = arrayBuffer b, pageCount = length doc\<rparr>"
  from Cons.prems l obtain ps k' where
    p: "page_loop env (arrayBuffer b) (random36 env k) (length doc) 0 (k + 1) accP = Inr (ps, k')"
    by (cases "page_loop env (arrayBuffer b) (random36 env k) (length doc) 0 (k + 1) accP")
      (auto simp: Let_def)
  from Cons.prems l p have r: "file_loop env bs k' (accF @ [?f]) ps = Inr (nf, np)"
    by (simp add: Let_def)
  from page_loop_appends[OF p] obtain new1 where
    n1: "ps = accP @ new1" "map slot new1 = map (\<lambda>j. (random36 env k, int j, 0)) [0..<length doc]"
    by blast
  from Cons.IH[OF r] obtain added new2 where
    a: "nf = (accF @ [?f]) @ added" "np = ps @ new2"
      "map data added = map arrayBuffer bs" "map name added = map file_name bs"
      "map (\<lambda>f. Some (pageCount f)) added
         = map (\<lambda>b. map_option length (load env (arrayBuffer b))) bs"
      "map slot new2 = concat (map source_slots added)"
    by blast
  have s: "source_slots ?f = map (\<lambda>j. (random36 env k, int j, 0)) [0..<length doc]"
    by (simp add: source_slots_def)
  have "nf = accF @ (?f # added)" using a(1) by simp
  moreover have "np = accP @ (new1 @ new2)" using a(2) n1(1) by simp
  moreover have "map data (?f # added) = map arrayBuffer (b # bs)" using a(3) by simp
  moreover have "map name (?f # added) = map file_name (b # bs)" using a(4) by simp
  moreover have "map (\<lambda>f. Some (pageCount f)) (?f # added)
         = map (\<lambda>b. map_option length (load env (arrayBuffer b))) (b # bs)"
    using a(5) l by simp
  moreover have "map slot (new1 @ new2) = concat (map source_slots (?f # added))"
    using a(6) n1(2) s by simp
  ultimately show ?case by blast
qed

lemma handleFileUpload_appends:
  assumes "handleFileUpload env k (Some fs) s = (s', None)"
  shows "\<exists>added new. files s' = files s @ added \<and> pages s' = pages s @ new
        \<and> map data added = map arrayBuffer fs
        \<and> map name added = map file_name fs
        \<and> map (\<lambda>f. Some (pageCount f)) added
            = map (\<lambda>b. map_option length (load env (arrayBuffer b))) fs
        \<and> map slot new = concat (map source_slots added)"
proof -
  from assms obtain nf np where
    l: "file_loop env fs k [] [] = Inr (nf, np)"
    and s': "s' = s\<lparr>files := files s @ nf, pages := pages s @ np, isProcessing := False\<rparr>"
    by (cases "file_loop env fs k [] []") (auto simp: handleFileUpload_def Let_def)
  from file_loop_appends[OF l] s' show ?thesis by simp
qed

text \<open>
  C3. For every sequence of upload calls that all succeed, from any workspace: the
  registry is the old one followed by one source document per uploaded file, in upload
  order (the bytes and the name of the file, the page count of the parsed document);
  the page sequence is the old one followed by new references, whose slots are the
  concatenation, in upload order, of each new source document's pages in ascending
  index order, each at rotation 0.
\<close>

theorem uploads_append_pages_in_upload_order:
  assumes "upload_calls env calls s = Inr s'"
  shows "\<exists>added new. files s' = files s @ added \<and> pages s' = pages s @ new
        \<and> map data added = map arrayBuffer (concat (map snd calls))
        \<and> map name added = map file_name (concat (map snd calls))
        \<and> map (\<lambda>f. Some (pageCount f)) added
            = map (\<lambda>b. map_option length (load env (arrayBuffer b))) (concat (map snd calls))
        \<and> map slot new = concat (map source_slots added)"
  using assms
proof (induction calls arbitrary: s)
  case Nil
  then show ?case by simp
next
  case (Cons c cs)
  obtain k fs where c: "c = (k, fs)" by (cases c)
  from Cons.prems c obtain s1 where
    h: "handleFileUpload env k (Some fs) s = (s1, None)"
    and r: "upload_calls env cs s1 = Inr s'"
    by (cases "handleFileUpload env k (Some fs) s") (auto split: option.splits)
  from handleFileUpload_appends[OF h] obtain a1 n1 where
    f1: "files s1 = files s @ a1" "pages s1 = pages s @ n1"
      "map data a1 = map arrayBuffer fs" "map name a1 = map file_name fs"
      "map (\<lambda>f. Some (pageCount f)) a1
         = map (\<lambda>b. map_option length (load env (arrayBuffer b))) fs"
      "map slot n1 = concat (map source_slots a1)"
    by blast
  from Cons.IH[OF r] obtain a2 n2 where
    f2: "files s' = files s1 @ a2" "pages s' = pages s1 @ n2"
      "map data a2 = map arrayBuffer (concat (map snd cs))"
      "map name a2 = map file_name (concat (map snd cs))"
      "map (\<lambda>f. Some (pageCount f)) a2
         = map (\<lambda>b. map_option length (load env (arrayBuffer b))) (concat (map snd cs))"
      "map slot n2 = concat (map source_slots a2)"
    by blast
  have "files s' = files s @ (a1 @ a2)" using f1(1) f2(1) by simp
  moreover have "pages s' = pages s @ (n1 @ n2)" using f1(2) f2(2) by simp
  moreover have "map data (a1 @ a2) = map arrayBuffer (concat (map snd (c # cs)))"
    using f1(3) f2(3) c by simp
  moreover have "map name (a1 @ a2) = map file_name (concat (map snd (c # cs)))"
    using f1(4) f2(4) c by simp
  moreover have "map (\<lambda>f. Some (pageCount f)) (a1 @ a2)
         = map (\<lambda>b. map_option length (load env (arrayBuffer b))) (concat (map snd (c # cs)))"
    using f1(5) f2(5) c by simp
  moreover have "map slot (n1 @ n2) = concat (map source_slots (a1 @ a2))"
    using f1(6) f2(6) by simp
  ultimately show ?case by blast
qed

lemma sample_upload_calls:
  "upload_calls sample_platform [(0, [uploadA]), (4, [uploadB])] initialState = Inr sample_uploaded"
  by (simp add: handleFileUpload_def sample_platform_def sample_load_def uploadA_def uploadB_def
      page_loop.simps generateThumbnail_def initialState_def show_nat.simps digit_def Let_def
      sample_uploaded_def uploaded_page_def)

theorem uploads_append_pages_in_upload_order_witness:
  "upload_calls sample_platform [(0, [uploadA]), (4, [uploadB])] initialState = Inr sample_uploaded
   \<and> map slot (pages sample_uploaded)
       = [(''f0'', 0, 0), (''f0'', 1, 0), (''f0'', 2, 0), (''f4'', 0, 0), (''f4'', 1, 0)]
   \<and> (\<exists>added new. files sample_uploaded = files initialState @ added
         \<and> pages sample_uploaded = pages initialState @ new
         \<and> map data added = [[1, 2, 3], [4, 5]]
         \<and> map slot new = concat (map source_slots added))"
proof -
  from uploads_append_pages_in_upload_order[OF sample_upload_calls]
  obtain added new where
    a: "files sample_uploaded = files initialState @ added"
      "pages sample_uploaded = pages initialState @ new"
      "map data added = map arrayBuffer (concat (map snd [(0::nat, [uploadA]), (4, [uploadB])]))"
      "map slot new = concat (map source_slots added)"
    by blast
  have d: "map data added = [[1, 2, 3], [4, 5]]"
    using a(3) by (simp add: uploadA_def uploadB_def)
  have s: "map slot (pages sample_uploaded)
       = [(''f0'', 0, 0), (''f0'', 1, 0), (''f0'', 2, 0), (''f4'', 0, 0), (''f4'', 1, 0)]"
    by (simp add: sample_uploaded_def uploaded_page_def slot_def)
  have "\<exists>added new. files sample_uploaded = files initialState @ added
         \<and> pages sample_uploaded = pages initialState @ new
         \<and> map data added = [[1, 2, 3], [4, 5]]
         \<and> map slot new = concat (map source_slots added)"
    by (rule exI[of _ added], rule exI[of _ new]) (simp only: a(1,2,4) d simp_thms)
  with sample_upload_calls s show ?thesis by simp
qed

text \<open>
  A file that does not parse ends the outer loop with a rejection, wherever it stands
  in the batch.
\<close>

lemma file_loop_rejects:
  "bad \<in> set fs \<Longrightarrow> load env (arrayBuffer bad) = None \<Longrightarrow>
     \<exists>e. file_loop env fs k accF accP = Inl e"
proof (induction fs arbitrary: k accF accP)
  case Nil
  then show ?case by simp
next
  case (Cons b bs)
  show ?case
  proof (cases "load env (arrayBuffer b)")
    case None
    then show ?thesis by (simp add: Let_def)
  next
    case (Some doc)
    with Cons.prems have m: "bad \<in> set bs" by auto
    show ?thesis
    proof (cases "page_loop env (arrayBuffer b) (random36 env k) (length doc) 0 (k + 1) accP")
      case (Inl e)
      with Some show ?thesis by (simp add: Let_def)
    next
      case (Inr r)
      obtain ps k' where r: "r = (ps, k')" by (cases r)
      from Cons.IH[OF m Cons.prems(2)] Some Inr r show ?thesis by (simp add: Let_def)
    qed
  qed
qed

text \<open>
  C4. For every workspace state: uploading a byte buffer that the codec does not parse
  is rejected with the load error, and the state the handler leaves has the page
  sequence and the registry of the state before; a batch that contains such a buffer
  is rejected as a whole and leaves the same two fields as they were.
\<close>

theorem invalid_upload_keeps_workspace:
  assumes "load env (arrayBuffer bad) = None"
  shows "snd (handleFileUpload env k (Some [bad]) s) = Some LoadError
       \<and> files (fst (handleFileUpload env k (Some [bad]) s)) = files s
       \<and> pages (fst (handleFileUpload env k (Some [bad]) s)) = pages s
       \<and> (bad \<in> set fs \<longrightarrow>
            snd (handleFileUpload env k (Some fs) s) \<noteq> None
          \<and> files (fst (handleFileUpload env k (Some fs) s)) = files s
          \<and> pages (fst (handleFileUpload env k (Some fs) s)) = pages s)"
proof -
  have one: "handleFileUpload env k (Some [bad]) s = (s\<lparr>isProcessing := True\<rparr>, Some LoadError)"
    using assms by (simp add: handleFileUpload_def Let_def)
  have batch: "\<exists>e. handleFileUpload env k (Some fs) s = (s\<lparr>isProcessing := True\<rparr>, Some e)"
    if "bad \<in> set fs"
  proof -
    from file_loop_rejects[OF that assms] obtain e where "file_loop env fs k [] [] = Inl e"
      by blast
    then show ?thesis by (simp add: handleFileUpload_def Let_def)
  qed
  show ?thesis using one batch by auto
qed

theorem invalid_upload_keeps_workspace_witness:
  "snd (handleFileUpload sample_platform 0 (Some [emptyFile]) sample_state) = Some LoadError
   \<and> files (fst (handleFileUpload sample_platform 0 (Some [emptyFile]) sample_state))
       = [fileA, fileB]
   \<and> pages (fst (handleFileUpload sample_platform 0 (Some [emptyFile]) sample_state))
       = sample_pages
   \<and> snd (handleFileUpload sample_platform 0 (Some [uploadA, emptyFile]) sample_state) \<noteq> None
   \<and> pages (fst (handleFileUpload sample_platform 0 (Some [uploadA, emptyFile]) sample_state))
       = sample_pages"
proof -
  have l: "load sample_platform (arrayBuffer emptyFile) = None"
    by (simp add: sample_platform_def sample_load_def emptyFile_def)
  have m: "emptyFile \<in> set [uploadA, emptyFile]" by simp
  from invalid_upload_keeps_workspace[OF l, of 0 sample_state "[uploadA, emptyFile]"] m
  show ?thesis by (simp add: sample_state_def)
qed

section \<open>The processing flag\<close>

text \<open>
  The handlers with a \<open>finally\<close> leave the flag cleared whether the operation was
  rejected or not, and a successful upload clears it with its last update.
\<close>

lemma handleMerge_clears_flag:
  "pages s \<noteq> [] \<Longrightarrow> isProcessing (fst (handleMerge env s)) = False"
  by (simp add: handleMerge_def Let_def)

lemma handleSplit_clears_flag:
  "pages s \<noteq> [] \<Longrightarrow> isProcessing (fst (handleSplit env s)) = False"
  by (simp add: handleSplit_def Let_def)

lemma handleAiAnalyze_clears_flag:
  "files s \<noteq> [] \<Longrightarrow> isProcessing (handleAiAnalyze env s) = False"
  by (simp add: handleAiAnalyze_def Let_def split: sum.splits)

lemma handleFileUpload_success_clears_flag:
  "handleFileUpload env k (Some fs) s = (s', None) \<Longrightarrow> isProcessing s' = False"
  by (auto simp: handleFileUpload_def Let_def split: sum.splits)

text \<open>
  The upload handler has no \<open>finally\<close>: every rejected upload leaves the flag set.
\<close>

lemma handleFileUpload_failure_keeps_flag:
  "handleFileUpload env k (Some fs) s = (s', Some e) \<Longrightarrow> isProcessing s' = True"
  by (auto simp: handleFileUpload_def Let_def split: sum.splits)

text \<open>
  C5. The claim is that every long-running operation ends with the flag cleared, on
  the failure path too. On the sample platform, the upload of a file of no bytes into
  the initial workspace is rejected with the load error and ends with the flag set.
\<close>

theorem rejected_upload_leaves_flag_set:
  "handleFileUpload sample_platform 0 (Some [emptyFile]) initialState
     = (\<lparr>files = [], pages = [], isProcessing = True, aiInsights = None\<rparr>, Some LoadError)"
  by (simp add: handleFileUpload_def Let_def sample_platform_def sample_load_def emptyFile_def
      initialState_def)

section \<open>Merge with a reference that does not resolve\<close>

lemma copyPages_Inr_resolves:
  "copyPages (cache (fileId r)) (pageIndex r) = Inr p \<Longrightarrow> resolves cache r"
  by (auto simp: copyPages_def resolves_def split: option.splits if_splits)

lemma copyPages_Inl: "copyPages d i = Inl e \<Longrightarrow> e = CopyError"
  by (auto simp: copyPages_def split: option.splits if_splits)

lemma merge_loop_unresolved:
  "ref \<in> set refs \<Longrightarrow> \<not> resolves cache ref \<Longrightarrow> merge_loop cache refs out = Inl CopyError"
proof (induction refs arbitrary: out)
  case Nil
  then show ?case by simp
next
  case (Cons r rs)
  show ?case
  proof (cases "copyPages (cache (fileId r)) (pageIndex r)")
    case (Inl e)
    with copyPages_Inl[OF Inl] show ?thesis by simp
  next
    case (Inr p)
    from copyPages_Inr_resolves[of cache r p] Inr Cons.prems have "ref \<in> set rs" by auto
    from Cons.IH[OF this Cons.prems(2)] Inr show ?thesis by simp
  qed
qed

text \<open>The cache holds exactly the ids of the files, when all of them load.\<close>

lemma load_files_dom:
  "load_files env fs c0 = Inr cache \<Longrightarrow> dom cache = dom c0 \<union> id_file ` set fs"
  by (induction fs arbitrary: c0) (auto split: option.splits)

lemma load_files_Inl: "load_files env fs c0 = Inl e \<Longrightarrow> e = LoadError"
  by (induction fs arbitrary: c0) (auto split: option.splits)

lemma absent_id_unresolved:
  assumes "load_files env fs Map.empty = Inr cache" and "fileId ref \<notin> id_file ` set fs"
  shows "\<not> resolves cache ref"
proof -
  from load_files_dom[OF assms(1)] assms(2) have "fileId ref \<notin> dom cache" by simp
  then have "cache (fileId ref) = None" by blast
  then show ?thesis by (simp add: resolves_def)
qed

text \<open>
  C6, as the claim states it, fails: a sequence whose last reference names a source
  document that is not in the registry, and one whose reference has a page index past
  the end of its source, are both rejected with the error of \<open>copyPages\<close> itself, which
  is not an \<open>AssemblyError\<close>.
\<close>

theorem merge_unresolved_counterexample:
  "mergeAndDownload sample_platform [fileA, fileB] (sample_pages @ [pageRef ''c0'' ''C'' 0 0])
       ''exported_document.pdf'' = Inl CopyError
   \<and> mergeAndDownload sample_platform [fileA, fileB] [pageRef ''a7'' ''A'' 7 0]
       ''exported_document.pdf'' = Inl CopyError
   \<and> \<not> is_AssemblyError CopyError"
  by (simp add: mergeAndDownload_def sample_platform_def sample_load_def fileA_def fileB_def
      sample_pages_def pageRef_def copyPages_def addPage_def setRotation_def)

text \<open>
  C6, amended. For every page-reference sequence that contains a reference whose
  source-document id is absent from the registry, or that does not resolve in the
  loaded documents (no document, or a page index out of range), \<open>mergeAndDownload\<close> is
  rejected and downloads nothing: no page is skipped. The error is the codec's own,
  unwrapped: the rejection of \<open>copyPages\<close> when all files of the registry load, the one
  of \<open>PDFDocument.load\<close> otherwise; it is never an \<open>AssemblyError\<close>.
\<close>

theorem merge_unresolved_rejects_unwrapped:
  assumes "ref \<in> set pageRefs"
    and "fileId ref \<notin> id_file ` set fs
         \<or> (\<exists>cache. load_files env fs Map.empty = Inr cache \<and> \<not> resolves cache ref)"
  shows "(\<exists>e. mergeAndDownload env fs pageRefs filename = Inl e
            \<and> (e = LoadError \<or> e = CopyError) \<and> \<not> is_AssemblyError e)
       \<and> (\<forall>cache. load_files env fs Map.empty = Inr cache \<longrightarrow>
            mergeAndDownload env fs pageRefs filename = Inl CopyError)"
proof (cases "load_files env fs Map.empty")
  case (Inl e)
  from load_files_Inl[OF Inl] Inl show ?thesis
    by (simp add: mergeAndDownload_def)
next
  case (Inr cache)
  from assms(2) Inr absent_id_unresolved[OF Inr] have "\<not> resolves cache ref" by auto
  from merge_loop_unresolved[OF assms(1) this] Inr show ?thesis
    by (simp add: mergeAndDownload_def)
qed

theorem merge_unresolved_rejects_unwrapped_witness:
  "mergeAndDownload sample_platform [fileA, fileB] (sample_pages @ [pageRef ''c1'' ''C'' 1 90])
     ''exported_document.pdf'' = Inl CopyError"
proof -
  have m: "pageRef ''c1'' ''C'' 1 90 \<in> set (sample_pages @ [pageRef ''c1'' ''C'' 1 90])"
    by simp
  have a: "fileId (pageRef ''c1'' ''C'' 1 90) \<notin> id_file ` set [fileA, fileB]
         \<or> (\<exists>cache. load_files sample_platform [fileA, fileB] Map.empty = Inr cache
               \<and> \<not> resolves cache (pageRef ''c1'' ''C'' 1 90))"
    by (simp add: pageRef_def fileA_def fileB_def)
  from merge_unresolved_rejects_unwrapped[OF m a, of "''exported_document.pdf''"]
    sample_load_files
  show ?thesis by blast
qed

section \<open>Reordering\<close>

text \<open>The two calls of \<open>splice\<close> in \<open>handleDragOver\<close>, for indices inside the array.\<close>

lemma splice_remove_one:
  assumes "i < length xs"
  shows "splice_array (int i) 1 [] xs = ([xs ! i], take i xs @ drop (Suc i) xs)"
proof -
  have "take 1 (drop i xs) = [xs ! i]"
    using assms by (simp add: take_Suc_conv_app_nth hd_drop_conv_nth take_Suc)
  moreover have "nat (min 1 (int (length xs) - int i)) = 1" using assms by simp
  ultimately show ?thesis using assms by (simp add: splice_array_def Let_def)
qed

lemma splice_insert_one:
  assumes "j \<le> length ys"
  shows "splice_array (int j) 0 [m] ys = ([], take j ys @ [m] @ drop j ys)"
  using assms by (simp add: splice_array_def Let_def)

lemma handleDragOver_move:
  assumes "i < length ps" and "j < length ps" and "i \<noteq> j"
  shows "handleDragOver (Some (int i)) (int j) ps =
           (Some (int j),
            map Some (take j (take i ps @ drop (i + 1) ps) @ [ps ! i]
                        @ drop j (take i ps @ drop (i + 1) ps)))"
proof -
  let ?ys = "take i (map Some ps) @ drop (Suc i) (map Some ps)"
  have r: "splice_array (int i) 1 [] (map Some ps) = ([map Some ps ! i], ?ys)"
    using assms(1) by (simp add: splice_remove_one)
  have "j \<le> length ?ys" using assms(1,2) by simp
  from splice_insert_one[OF this]
  have s: "splice_array (int j) 0 [Some (ps ! i)] ?ys
             = ([], take j ?ys @ [Some (ps ! i)] @ drop j ?ys)" .
  have "handleDragOver (Some (int i)) (int j) ps
          = (Some (int j), take j ?ys @ [Some (ps ! i)] @ drop j ?ys)"
    using assms by (simp add: handleDragOver_def r s del: append_assoc take_append drop_append)
  then show ?thesis by (simp add: take_map drop_map)
qed

text \<open>
  When both indices are inside \<open>[0, length)\<close>, \<open>handleDragOver\<close> does what the
  specification's \<open>reorder\<close> does: it removes the element at \<open>fromIndex\<close> and reinserts
  it at \<open>toIndex\<close>, every slot of the result holding a page; when \<open>fromIndex\<close> equals
  \<open>toIndex\<close> the sequence and the dragged index are unchanged.
\<close>

lemma reorder_in_range_moves:
  assumes "0 \<le> fromIndex" and "fromIndex < int (length ps)"
    and "0 \<le> toIndex" and "toIndex < int (length ps)"
  shows "(\<exists>moved. reorder_spec fromIndex toIndex ps = Inr moved
            \<and> snd (handleDragOver (Some fromIndex) toIndex ps) = map Some moved
            \<and> fst (handleDragOver (Some fromIndex) toIndex ps) = Some toIndex)
       \<and> (fromIndex = toIndex \<longrightarrow>
            handleDragOver (Some fromIndex) toIndex ps = (Some fromIndex, map Some ps))"
proof -
  obtain i j where ij: "fromIndex = int i" "toIndex = int j"
    using assms(1,3) by (metis nonneg_int_cases)
  with assms have lt: "i < length ps" "j < length ps" by simp_all
  let ?moved = "take j (take i ps @ drop (i + 1) ps) @ [ps ! i]
                  @ drop j (take i ps @ drop (i + 1) ps)"
  have sp: "reorder_spec fromIndex toIndex ps = Inr ?moved"
    using lt by (simp add: reorder_spec_def ij Let_def)
  have same: "handleDragOver (Some fromIndex) toIndex ps = (Some fromIndex, map Some ps)"
    if "fromIndex = toIndex"
    using that by (simp add: handleDragOver_def)
  have code: "handleDragOver (Some fromIndex) toIndex ps = (Some toIndex, map Some ?moved)"
  proof (cases "i = j")
    case False
    from handleDragOver_move[OF lt False] show ?thesis by (simp add: ij)
  next
    case True
    have "?moved = ps" using lt(1) True by (simp add: id_take_nth_drop[symmetric])
    with True same show ?thesis by (simp add: ij)
  qed
  show ?thesis using sp code same by simp
qed

lemma reorder_in_range_sample:
  "handleDragOver (Some 4) 0 sample_pages
     = (Some 0, map Some [pageRef ''b0'' ''B'' 0 0, pageRef ''b1'' ''B'' 1 90,
                          pageRef ''a0'' ''A'' 0 0, pageRef ''a1'' ''A'' 1 0,
                          pageRef ''a2'' ''A'' 2 0])
   \<and> handleDragOver (Some 2) 2 sample_pages = (Some 2, map Some sample_pages)"
  by (simp add: handleDragOver_def splice_array_def sample_pages_def Let_def)

text \<open>
  C7. The claim is that \<open>reorder\<close> fails with \<open>RangeError\<close> whenever an index is outside
  \<open>[0, length)\<close>. The handler has no range check, and the dragged index is never set
  back: after a drag that started on the fifth card of the uploaded sample and the
  removal of the first four pages, the dragged index is 4 and one page is left. A
  drag-over on the card of that page, where the specification's \<open>reorder\<close> fails with
  \<open>RangeError\<close>, returns normally with an array of two slots, the first one \<open>undefined\<close>.
\<close>

theorem stale_drag_stores_undefined:
  "pages sample_last_page = [uploaded_page ''f4-1-0.6'' ''f4'' 1]
   \<and> reorder_spec 4 0 (pages sample_last_page) = Inl RangeError
   \<and> handleDragOver (handleDragStart 4) 0 (pages sample_last_page)
       = (Some 0, [None, Some (uploaded_page ''f4-1-0.6'' ''f4'' 1)])"
  by (simp add: sample_last_page_def removePage_def sample_uploaded_def uploaded_page_def
      reorder_spec_def handleDragStart_def handleDragOver_def splice_array_def Let_def)

section \<open>Rotation\<close>

text \<open>On the four quarter turns, the remainder of JavaScript is the modulus.\<close>

lemma js_rem_values:
  "js_rem 90 360 = 90" "js_rem 180 360 = 180" "js_rem 270 360 = 270" "js_rem 360 360 = 0"
  by (simp_all add: js_rem_def)

lemma js_rem_quarter:
  assumes "r \<in> {0, 90, 180, 270}"
  shows "js_rem (r + 90) 360 = (r + 90) mod 360"
proof -
  from assms consider "r = 0" | "r = 90" | "r = 180" | "r = 270" by auto
  then show ?thesis by cases (simp_all add: js_rem_values)
qed

lemma js_rem_quarter_turn:
  assumes "r \<in> {0, 90, 180, 270}"
  shows "js_rem (r + 90) 360 \<in> {0, 90, 180, 270}"
proof -
  from assms consider "r = 0" | "r = 90" | "r = 180" | "r = 270" by auto
  then show ?thesis by cases (simp_all add: js_rem_values)
qed

lemma four_quarter_turns:
  assumes "r \<in> {0, 90, 180, 270}"
  shows "js_rem (js_rem (js_rem (js_rem (r + 90) 360 + 90) 360 + 90) 360 + 90) 360 = r"
proof -
  from assms consider "r = 0" | "r = 90" | "r = 180" | "r = 270" by auto
  then show ?thesis by cases (simp_all add: js_rem_values)
qed

lemma moved_subset:
  "i < length ps \<Longrightarrow>
     set (take j (take i ps @ drop (i + 1) ps) @ [ps ! i] @ drop j (take i ps @ drop (i + 1) ps))
       \<subseteq> set ps"
  by (auto dest!: in_set_takeD in_set_dropD)

lemma drag_subset:
  assumes "0 \<le> dragged" "dragged < int (length ps)" "0 \<le> idx" "idx < int (length ps)"
    and "handleDragOver (Some dragged) idx ps = (d, map Some ps')"
  shows "set ps' \<subseteq> set ps"
proof (cases "dragged = idx")
  case True
  with assms(5) have "map Some ps' = map Some ps" by (simp add: handleDragOver_def)
  then have "ps' = ps" by (simp add: inj_map_eq_map)
  then show ?thesis by simp
next
  case False
  obtain i j where ij: "dragged = int i" "idx = int j"
    using assms(1,3) by (metis nonneg_int_cases)
  with assms False have lt: "i < length ps" "j < length ps" "i \<noteq> j" by simp_all
  from handleDragOver_move[OF lt] assms(5)
  have "map Some ps' = map Some (take j (take i ps @ drop (i + 1) ps) @ [ps ! i]
                          @ drop j (take i ps @ drop (i + 1) ps))"
    by (simp add: ij)
  then have "ps' = take j (take i ps @ drop (i + 1) ps) @ [ps ! i]
                          @ drop j (take i ps @ drop (i + 1) ps)"
    by (simp only: inj_map_eq_map[OF inj_Some])
  with moved_subset[OF lt(1)] show ?thesis by simp
qed

lemma upload_new_rotations:
  assumes "map slot new = concat (map source_slots added)" and "p \<in> set new"
  shows "rotation p = 0"
proof -
  from assms(2) have "slot p \<in> set (map slot new)" by simp
  with assms(1) have "slot p \<in> set (concat (map source_slots added))" by simp
  then show ?thesis by (auto simp: source_slots_def slot_def)
qed

lemma handleFileUpload_pages:
  "p \<in> set (pages (fst (handleFileUpload env k fileList s))) \<Longrightarrow>
     p \<in> set (pages s) \<or> rotation p = 0"
proof (cases "handleFileUpload env k fileList s")
  case (Pair s' r)
  assume p: "p \<in> set (pages (fst (handleFileUpload env k fileList s)))"
  show ?thesis
  proof (cases fileList)
    case None
    with p show ?thesis by (simp add: handleFileUpload_def)
  next
    case (Some fs)
    show ?thesis
    proof (cases r)
      case None
      with Pair Some have h: "handleFileUpload env k (Some fs) s = (s', None)" by simp
      from handleFileUpload_appends[OF h] obtain added new where
        a: "pages s' = pages s @ new" "map slot new = concat (map source_slots added)"
        by blast
      from p Pair a(1) have "p \<in> set (pages s) \<or> p \<in> set new" by simp
      with upload_new_rotations[OF a(2)] show ?thesis by blast
    next
      case (Some e)
      with Pair \<open>fileList = Some fs\<close> have "s' = s\<lparr>isProcessing := True\<rparr>"
        by (auto simp: handleFileUpload_def Let_def split: sum.splits)
      with p Pair show ?thesis by simp
    qed
  qed
qed

text \<open>Every step keeps the rotations among the four quarter turns.\<close>

lemma reachable_rotations:
  "reachable env s \<Longrightarrow> p \<in> set (pages s) \<Longrightarrow> rotation p \<in> {0, 90, 180, 270}"
proof (induction arbitrary: p rule: reachable.induct)
  case initial
  then show ?case by (simp add: initialState_def)
next
  case (upload s k fileList)
  from handleFileUpload_pages[OF upload.prems] upload.IH show ?case by blast
next
  case (remove s i)
  then show ?case by (simp add: removePage_def)
next
  case (rotate s i)
  from rotate.prems obtain q where q: "q \<in> set (pages s)"
    and p: "p = (if id_ref q = i then q\<lparr>rotation := js_rem (rotation q + 90) 360\<rparr> else q)"
    by (auto simp: rotatePage_def)
  show ?case
  proof (cases "id_ref q = i")
    case True
    with p have "rotation p = js_rem (rotation q + 90) 360" by simp
    with js_rem_quarter_turn[OF rotate.IH[OF q]] show ?thesis by simp
  next
    case False
    with p rotate.IH[OF q] show ?thesis by simp
  qed
next
  case (drag s dragged idx d ps)
  from drag_subset[OF drag.hyps(2-6)] drag.prems have "p \<in> set (pages s)" by auto
  then show ?case by (rule drag.IH)
next
  case (merge s)
  then show ?case by (simp add: handleMerge_def Let_def split: if_splits)
next
  case (split s)
  then show ?case by (simp add: handleSplit_def Let_def split: if_splits)
next
  case (analyze s)
  then show ?case by (simp add: handleAiAnalyze_def Let_def split: if_splits sum.splits)
next
  case (clear s)
  then show ?case by (simp add: clearWorkspace_def)
qed

text \<open>
  C8. In every state of the workspace, the rotation of every page reference is one of
  0, 90, 180, 270; \<open>rotatePage\<close> sets the rotation of the references with the given id to
  \<open>(rotation + 90) mod 360\<close> and leaves the others; four calls of \<open>rotatePage\<close> with the
  same id give the state back.
\<close>

theorem rotatePage_quarter_turn_cycle:
  assumes "reachable env s"
  shows "(\<forall>p \<in> set (pages s). rotation p \<in> {0, 90, 180, 270})
       \<and> pages (rotatePage i s)
           = map (\<lambda>p. if id_ref p = i then p\<lparr>rotation := (rotation p + 90) mod 360\<rparr> else p)
               (pages s)
       \<and> rotatePage i (rotatePage i (rotatePage i (rotatePage i s))) = s"
proof -
  let ?f = "\<lambda>p. if id_ref p = i then p\<lparr>rotation := js_rem (rotation p + 90) 360\<rparr> else p"
  have inv: "\<And>p. p \<in> set (pages s) \<Longrightarrow> rotation p \<in> {0, 90, 180, 270}"
    by (rule reachable_rotations[OF assms])
  have one: "pages (rotatePage i s)
           = map (\<lambda>p. if id_ref p = i then p\<lparr>rotation := (rotation p + 90) mod 360\<rparr> else p)
               (pages s)"
    unfolding rotatePage_def using js_rem_quarter[OF inv] by simp
  have four: "?f (?f (?f (?f p))) = p" if "p \<in> set (pages s)" for p
    using four_quarter_turns[OF inv[OF that]] by simp
  have "rotatePage i (rotatePage i (rotatePage i (rotatePage i s)))
          = s\<lparr>pages := map (\<lambda>p. ?f (?f (?f (?f p)))) (pages s)\<rparr>"
    by (simp add: rotatePage_def comp_def)
  also have "map (\<lambda>p. ?f (?f (?f (?f p)))) (pages s) = pages s"
    using four by (simp add: map_idI)
  finally show ?thesis using inv one by simp
qed

lemma sample_batch_upload:
  "handleFileUpload sample_platform 0 (Some [uploadA, uploadB]) initialState
     = (sample_uploaded, None)"
  by (simp add: handleFileUpload_def sample_platform_def sample_load_def uploadA_def uploadB_def
      page_loop.simps generateThumbnail_def initialState_def show_nat.simps digit_def Let_def
      sample_uploaded_def uploaded_page_def)

lemma sample_uploaded_reachable: "reachable sample_platform sample_uploaded"
  using reachable.upload[OF reachable.initial, of sample_platform 0 "Some [uploadA, uploadB]"]
  by (simp add: sample_batch_upload)

theorem rotatePage_quarter_turn_cycle_witness:
  "map rotation (pages sample_uploaded) = [0, 0, 0, 0, 0]
   \<and> map rotation (pages (rotatePage ''f0-1-0.2'' sample_uploaded)) = [0, 90, 0, 0, 0]
   \<and> rotatePage ''f0-1-0.2'' (rotatePage ''f0-1-0.2'' (rotatePage ''f0-1-0.2''
        (rotatePage ''f0-1-0.2'' sample_uploaded))) = sample_uploaded"
proof -
  from rotatePage_quarter_turn_cycle[OF sample_uploaded_reachable, of "''f0-1-0.2''"]
  have a: "pages (rotatePage ''f0-1-0.2'' sample_uploaded)
           = map (\<lambda>p. if id_ref p = ''f0-1-0.2''
                       then p\<lparr>rotation := (rotation p + 90) mod 360\<rparr> else p)
               (pages sample_uploaded)"
    and b: "rotatePage ''f0-1-0.2'' (rotatePage ''f0-1-0.2'' (rotatePage ''f0-1-0.2''
        (rotatePage ''f0-1-0.2'' sample_uploaded))) = sample_uploaded"
    by simp_all
  have c: "map rotation (pages sample_uploaded) = [0, 0, 0, 0, 0]"
    by (simp add: sample_uploaded_def uploaded_page_def)
  have "map rotation (pages (rotatePage ''f0-1-0.2'' sample_uploaded)) = [0, 90, 0, 0, 0]"
    unfolding a by (simp add: sample_uploaded_def uploaded_page_def)
  with b c show ?thesis by simp
qed

section \<open>Removal\<close>

text \<open>
  C9. For every workspace state and id: \<open>removePage\<close> twice with the same id gives the
  state that one call gives; with an id that no page reference has, it gives the state
  back; it never changes the source documents.
\<close>

theorem removePage_idempotent:
  "removePage i (removePage i s) = removePage i s
   \<and> (i \<notin> id_ref ` set (pages s) \<longrightarrow> removePage i s = s)
   \<and> files (removePage i s) = files s"
proof -
  have "filter (\<lambda>p. id_ref p \<noteq> i) (pages s) = pages s" if "i \<notin> id_ref ` set (pages s)"
    using that by (intro filter_True) auto
  then show ?thesis by (simp add: removePage_def)
qed

theorem removePage_idempotent_witness:
  "removePage ''a1'' (removePage ''a1'' sample_state) = removePage ''a1'' sample_state
   \<and> map id_ref (pages (removePage ''a1'' sample_state)) = [''b1'', ''a0'', ''a2'', ''b0'']
   \<and> removePage ''zz'' sample_state = sample_state
   \<and> files (removePage ''a1'' sample_state) = [fileA, fileB]"
proof -
  have n: "''zz'' \<notin> id_ref ` set (pages sample_state)"
    by (simp add: sample_state_def sample_pages_def pageRef_def)
  have m: "map id_ref (pages (removePage ''a1'' sample_state)) = [''b1'', ''a0'', ''a2'', ''b0'']"
    by (simp add: removePage_def sample_state_def sample_pages_def pageRef_def)
  from removePage_idempotent[of "''a1''" sample_state]
    removePage_idempotent[of "''zz''" sample_state] n m
  show ?thesis by (simp add: sample_state_def)
qed

section \<open>The text handed to the analysis\<close>

text \<open>The loop adds the blocks of the pages \<open>i\<close> to \<open>maxPages\<close>, in order.\<close>

lemma text_loop_blocks:
  "text_loop pdf m i acc = acc @ concat (map (\<lambda>k. page_block k (pdf ! (k - 1))) [i..<Suc m])"
proof (induction pdf m i acc rule: text_loop.induct)
  case (1 pdf m i acc)
  show ?case
  proof (cases "i \<le> m")
    case False
    then show ?thesis by (simp add: text_loop.simps)
  next
    case True
    then have u: "[i..<Suc m] = i # [i + 1..<Suc m]" by (simp add: upt_conv_Cons)
    from True have "text_loop pdf m i acc
        = text_loop pdf m (i + 1) (acc @ page_block i (pdf ! (i - 1)))"
      by (subst text_loop.simps) simp
    also have "\<dots> = (acc @ page_block i (pdf ! (i - 1)))
        @ concat (map (\<lambda>k. page_block k (pdf ! (k - 1))) [i + 1..<Suc m])"
      by (rule "1.IH"[OF True])
    finally show ?thesis unfolding u by simp
  qed
qed

lemma blocks_zip:
  assumes "m \<le> length pdf"
  shows "map (\<lambda>k. page_block k (pdf ! (k - 1))) [1..<Suc m]
           = map2 page_block [1..<Suc m] (take m pdf)"
proof (rule nth_equalityI)
  show "length (map (\<lambda>k. page_block k (pdf ! (k - 1))) [1..<Suc m])
          = length (map2 page_block [1..<Suc m] (take m pdf))"
    using assms by (simp del: upt_Suc)
next
  fix i assume "i < length (map (\<lambda>k. page_block k (pdf ! (k - 1))) [1..<Suc m])"
  then have i: "i < m" by (simp del: upt_Suc)
  then have n: "[1..<Suc m] ! i = 1 + i" by (simp del: upt_Suc)
  from i assms show "map (\<lambda>k. page_block k (pdf ! (k - 1))) [1..<Suc m] ! i
          = map2 page_block [1..<Suc m] (take m pdf) ! i"
    by (simp add: n del: upt_Suc)
qed

lemma take_min_five: "take (min (length pdf) 5) pdf = take 5 pdf"
  by (simp add: min_def)

lemma extractText_first_five:
  assumes "getDocument env d = Some pdf"
  shows "extractText env d
       = Inr (concat (map2 page_block [1..<Suc (min (length pdf) 5)] (take 5 pdf)))"
proof -
  have "min (length pdf) 5 \<le> length pdf" by simp
  from blocks_zip[OF this]
  have "map (\<lambda>k. page_block k (pdf ! (k - 1))) [1..<Suc (min (length pdf) 5)]
          = map2 page_block [1..<Suc (min (length pdf) 5)] (take 5 pdf)"
    by (simp only: take_min_five)
  with assms show ?thesis
    by (simp add: extractText_def text_loop_blocks del: upt_Suc)
qed

text \<open>
  C10. On a workspace with a source document, \<open>handleAiAnalyze\<close> clears the flag and
  stores as insight what \<open>analyzePdfContent\<close> makes of the text that \<open>extractText\<close> gives
  for the bytes of the first source document (the error message when either is
  rejected); the other files and the pages play no part, so that two workspaces whose
  first source documents have the same bytes get the same insight. The text of
  \<open>extractText\<close> is made of one block for each of the first \<open>min(pageCount, 5)\<close> pages,
  in order and numbered from 1: a line with the page number, then the text items of
  the page joined by spaces, then a line break.
\<close>

theorem analysis_reads_first_file_five_pages:
  "(files s = f # rest \<longrightarrow>
      handleAiAnalyze env s
        = s\<lparr>isProcessing := False,
             aiInsights :=
               Some (case extractText env (data f) of
                       Inl e \<Rightarrow> ''Error generating insights.''
                     | Inr txt \<Rightarrow>
                         (case analyzePdfContent env txt of
                            Inl e \<Rightarrow> ''Error generating insights.''
                          | Inr insights \<Rightarrow> insights))\<rparr>)
   \<and> (files s = f # rest \<and> files s' = f' # rest' \<and> data f = data f' \<longrightarrow>
        aiInsights (handleAiAnalyze env s) = aiInsights (handleAiAnalyze env s'))
   \<and> (getDocument env d = Some pdf \<longrightarrow>
        extractText env d
          = Inr (concat (map2 (\<lambda>i items. ''--- Page '' @ show_nat i @ '' ---'' @ [CHR 0x0A]
                                           @ join '' '' items @ [CHR 0x0A])
                           [1..<Suc (min (length pdf) 5)] (take 5 pdf))))"
proof (intro conjI impI)
  assume "files s = f # rest"
  then show "handleAiAnalyze env s
        = s\<lparr>isProcessing := False,
             aiInsights :=
               Some (case extractText env (data f) of
                       Inl e \<Rightarrow> ''Error generating insights.''
                     | Inr txt \<Rightarrow>
                         (case analyzePdfContent env txt of
                            Inl e \<Rightarrow> ''Error generating insights.''
                          | Inr insights \<Rightarrow> insights))\<rparr>"
    by (simp add: handleAiAnalyze_def Let_def split: sum.splits)
next
  assume a: "files s = f # rest \<and> files s' = f' # rest' \<and> data f = data f'"
  then show "aiInsights (handleAiAnalyze env s) = aiInsights (handleAiAnalyze env s')"
    by (simp add: handleAiAnalyze_def Let_def split: sum.splits)
next
  assume "getDocument env d = Some pdf"
  from extractText_first_five[OF this]
  show "extractText env d
          = Inr (concat (map2 (\<lambda>i items. ''--- Page '' @ show_nat i @ '' ---'' @ [CHR 0x0A]
                                           @ join '' '' items @ [CHR 0x0A])
                           [1..<Suc (min (length pdf) 5)] (take 5 pdf)))"
    by (simp only: page_block_def newline_def)
qed

theorem analysis_reads_first_file_five_pages_witness:
  "extractText sample_platform [1, 2, 3, 4, 5, 6, 7]
     = Inr (''--- Page 1 ---'' @ [CHR 0x0A] @ ''byte 1'' @ [CHR 0x0A]
            @ ''--- Page 2 ---'' @ [CHR 0x0A] @ ''byte 2'' @ [CHR 0x0A]
            @ ''--- Page 3 ---'' @ [CHR 0x0A] @ ''byte 3'' @ [CHR 0x0A]
            @ ''--- Page 4 ---'' @ [CHR 0x0A] @ ''byte 4'' @ [CHR 0x0A]
            @ ''--- Page 5 ---'' @ [CHR 0x0A] @ ''byte 5'' @ [CHR 0x0A])
   \<and> handleAiAnalyze sample_platform sample_state
       = sample_state\<lparr>aiInsights :=
           Some (''summary of: '' @ prompt (''--- Page 1 ---'' @ [CHR 0x0A] @ ''byte 1'' @ [CHR 0x0A]
            @ ''--- Page 2 ---'' @ [CHR 0x0A] @ ''byte 2'' @ [CHR 0x0A]
            @ ''--- Page 3 ---'' @ [CHR 0x0A] @ ''byte 3'' @ [CHR 0x0A]))\<rparr>
   \<and> aiInsights (handleAiAnalyze sample_platform sample_state)
       = aiInsights (handleAiAnalyze sample_platform
           (sample_state\<lparr>files := [fileA], pages := []\<rparr>))"
proof -
  let ?pdf7 = "map (\<lambda>b. [''byte'', show_nat (unat b)]) [1, 2, 3, 4, 5, 6, 7 :: byte]"
  let ?pdf3 = "map (\<lambda>b. [''byte'', show_nat (unat b)]) [1, 2, 3 :: byte]"
  let ?one = "sample_state\<lparr>files := [fileA], pages := []\<rparr>"
  have g7: "getDocument sample_platform [1, 2, 3, 4, 5, 6, 7] = Some ?pdf7"
    and g3: "getDocument sample_platform (data fileA) = Some ?pdf3"
    by (simp_all add: sample_platform_def fileA_def)
  have f: "files sample_state = fileA # [fileB]" "files ?one = fileA # []"
    by (simp_all add: sample_state_def)
  have u: "[1..<Suc 5] = [1, 2, 3, 4, 5]" "[1..<Suc 3] = [1, 2, 3]"
    by (simp_all add: upt_conv_Cons)
  note thm7 = analysis_reads_first_file_five_pages[of sample_state fileA "[fileB]"
      sample_platform ?one fileA "[]" "[1, 2, 3, 4, 5, 6, 7]" ?pdf7]
  note thm3 = analysis_reads_first_file_five_pages[of sample_state fileA "[fileB]"
      sample_platform ?one fileA "[]" "data fileA" ?pdf3]
  note text7 = thm7[THEN conjunct2, THEN conjunct2, rule_format, OF g7]
  note text3 = thm3[THEN conjunct2, THEN conjunct2, rule_format, OF g3]
  note handled = thm3[THEN conjunct1, rule_format, OF f(1)]
  note same = thm3[THEN conjunct2, THEN conjunct1, rule_format]
  have c7: "extractText sample_platform [1, 2, 3, 4, 5, 6, 7]
     = Inr (''--- Page 1 ---'' @ [CHR 0x0A] @ ''byte 1'' @ [CHR 0x0A]
            @ ''--- Page 2 ---'' @ [CHR 0x0A] @ ''byte 2'' @ [CHR 0x0A]
            @ ''--- Page 3 ---'' @ [CHR 0x0A] @ ''byte 3'' @ [CHR 0x0A]
            @ ''--- Page 4 ---'' @ [CHR 0x0A] @ ''byte 4'' @ [CHR 0x0A]
            @ ''--- Page 5 ---'' @ [CHR 0x0A] @ ''byte 5'' @ [CHR 0x0A])"
    unfolding text7 by (simp add: u show_nat.simps digit_def)
  have c3: "extractText sample_platform (data fileA)
     = Inr (''--- Page 1 ---'' @ [CHR 0x0A] @ ''byte 1'' @ [CHR 0x0A]
            @ ''--- Page 2 ---'' @ [CHR 0x0A] @ ''byte 2'' @ [CHR 0x0A]
            @ ''--- Page 3 ---'' @ [CHR 0x0A] @ ''byte 3'' @ [CHR 0x0A])"
    unfolding text3 by (simp add: u show_nat.simps digit_def)
  have h: "handleAiAnalyze sample_platform sample_state
       = sample_state\<lparr>aiInsights :=
           Some (''summary of: '' @ prompt (''--- Page 1 ---'' @ [CHR 0x0A] @ ''byte 1'' @ [CHR 0x0A]
            @ ''--- Page 2 ---'' @ [CHR 0x0A] @ ''byte 2'' @ [CHR 0x0A]
            @ ''--- Page 3 ---'' @ [CHR 0x0A] @ ''byte 3'' @ [CHR 0x0A]))\<rparr>"
    unfolding handled c3
    by (simp add: analyzePdfContent_def sample_platform_def sample_state_def)
  have "files sample_state = fileA # [fileB] \<and> files ?one = fileA # [] \<and> data fileA = data fileA"
    using f by simp
  from same[OF this] have b: "aiInsights (handleAiAnalyze sample_platform sample_state)
       = aiInsights (handleAiAnalyze sample_platform ?one)" .
  from c7 h b show ?thesis by (simp only: simp_thms)
qed

end
